theory Spec2Isabelle
  imports Main "HOL-Library.Word"
begin

section \<open>Data model\<close>

text \<open>
  A JavaScript string is a sequence of UTF-16 code units; \<open>.length\<close> counts them and
  \<open>.trim()\<close> removes the code units of the ECMAScript classes WhiteSpace and
  LineTerminator from both ends.
\<close>

type_synonym jsstring = "16 word list"

definition lit :: "string \<Rightarrow> jsstring" where
  "lit s = map of_char s"

definition is_whitespace :: "16 word \<Rightarrow> bool" where
  "is_whitespace c =
     (c \<in> {0x0009, 0x000A, 0x000B, 0x000C, 0x000D, 0x0020, 0x00A0, 0x1680,
            0x2028, 0x2029, 0x202F, 0x205F, 0x3000, 0xFEFF}
      \<or> (0x2000 \<le> c \<and> c \<le> 0x200A))"

definition trim :: "jsstring \<Rightarrow> jsstring" where
  "trim s = rev (dropWhile is_whitespace (rev (dropWhile is_whitespace s)))"

text \<open>
  One memory entry, with the fields the three source files give it. The field names carry
  the prefix \<open>e_\<close> (the source has \<open>x\<close>, \<open>y\<close>, \<open>z\<close>, \<open>score\<close>, \<open>timestamp\<close>, \<open>id\<close>,
  \<open>user_id\<close>). A timestamp is the instant, in milliseconds, that the source writes as the
  ISO string \<open>new Date().toISOString()\<close>; \<open>e_user_id = Some n\<close> stands for the string
  \<open>user_n\<close>. A field the object does not have is \<open>None\<close>.
\<close>

record entry =
  e_x :: jsstring
  e_y :: jsstring
  e_z :: jsstring
  e_score :: int
  e_timestamp :: nat
  e_id :: "nat option"
  e_user_id :: "nat option"

section \<open>server.js: the in-memory store\<close>

text \<open>
  The module-level array \<open>harmonicMemory\<close> is the state; each handler takes it and returns
  the response together with the new array. The two clock readings of the POST handler
  (\<open>Date.now()\<close> and \<open>new Date()\<close>) are arguments.
\<close>

definition slice_from_end :: "nat \<Rightarrow> 'a list \<Rightarrow> 'a list" where
  \<comment> \<open>\<open>xs.slice(-n)\<close>\<close>
  "slice_from_end n xs = drop (length xs - n) xs"


definition newEntry :: "nat \<Rightarrow> nat \<Rightarrow> entry \<Rightarrow> entry" where
  "newEntry date_now new_date body = body\<lparr>e_id := Some date_now, e_timestamp := new_date\<rparr>"

definition app_post :: "nat \<Rightarrow> nat \<Rightarrow> entry \<Rightarrow> entry list \<Rightarrow> (nat \<times> entry) \<times> entry list" where
  "app_post date_now new_date body harmonicMemory =
     (let pushed = harmonicMemory @ [newEntry date_now new_date body];
          kept = (if length pushed > 100 then slice_from_end 100 pushed else pushed)
      in ((201, newEntry date_now new_date body), kept))"

definition app_delete :: "entry list \<Rightarrow> entry list" where
  "app_delete harmonicMemory = []"

text \<open>A sequence of POST requests, each with its clock readings, served one after another.\<close>

fun posts :: "(nat \<times> nat \<times> entry) list \<Rightarrow> entry list \<Rightarrow> (nat \<times> entry) list \<times> entry list" where
  "posts [] hm = ([], hm)"
| "posts ((date_now, new_date, body) # rs) hm =
     (let (resp, hm') = app_post date_now new_date body hm;
          (resps, hm'') = posts rs hm'
      in (resp # resps, hm''))"

section \<open>The score computation of \<open>processHarmonicResponse\<close>\<close>

definition combinedField :: "jsstring \<Rightarrow> jsstring \<Rightarrow> jsstring" where
  "combinedField inputIntent fieldTone = inputIntent @ lit ''-'' @ fieldTone"

definition hash :: "jsstring \<Rightarrow> jsstring \<Rightarrow> nat" where
  "hash inputIntent fieldTone = length (combinedField inputIntent fieldTone)"

definition responses :: "jsstring list" where
  "responses =
     [lit ''The field echoes clarity.'',
      lit ''Harmonics are unstable, resolve gently.'',
      lit ''Stabilized vector forms resonance.'',
      lit ''This tone carries incomplete recursion.'',
      lit ''Phase integrity confirmed; coherence upheld.'',
      lit ''Intent and tone in disharmonic sync.'']"

definition result :: "jsstring \<Rightarrow> jsstring \<Rightarrow> jsstring" where
  "result inputIntent fieldTone = responses ! (hash inputIntent fieldTone mod length responses)"

definition score_of_hash :: "nat \<Rightarrow> int" where
  "score_of_hash h = 100 - \<bar>50 - int (h mod 100)\<bar>"

definition score :: "jsstring \<Rightarrow> jsstring \<Rightarrow> int" where
  "score inputIntent fieldTone = score_of_hash (hash inputIntent fieldTone)"

section \<open>Client state shared by both components\<close>

datatype api_status = Checking | Connected | Not_configured | Error_status

text \<open>
  Every request that leaves the browser is recorded, in order, in the field \<open>net\<close>; the
  source has no such log, it is kept here so that "no network call" can be stated.
  \<open>subscribed\<close> says that the two \<open>postgres_changes\<close> handlers of the channel
  \<open>harmonic-feed\<close> are registered; \<open>timers\<close> holds the scores of the pending
  \<open>setTimeout\<close> callbacks of the INSERT handler. The diagnostics (\<open>debugInfo\<close>,
  \<open>errorMessages\<close>, the console) and the presence count are written but never read by
  the logic, and are left out.
\<close>

datatype net_call =
    Net_select nat
  | Net_insert entry
  | Net_subscribe_feed
  | Net_subscribe_presence
  | Net_fetch_get
  | Net_fetch_post entry

record client =
  inputIntent :: jsstring
  fieldTone :: jsstring
  outputResponse :: jsstring
  memoryDisplay :: "entry list"
  coherenceScore :: int
  apiStatus :: api_status
  subscribed :: bool
  timers :: "int list"
  net :: "net_call list"

definition init :: client where
  "init = \<lparr>inputIntent = [], fieldTone = lit ''Neutral'', outputResponse = [],
           memoryDisplay = [], coherenceScore = 0, apiStatus = Checking,
           subscribed = False, timers = [], net = []\<rparr>"

text \<open>The build-time environment and the two constants read from it with \<open>||\<close>.\<close>

record config =
  REACT_APP_SUPABASE_URL :: "jsstring option"
  REACT_APP_SUPABASE_ANON_KEY :: "jsstring option"

definition js_or :: "jsstring option \<Rightarrow> jsstring \<Rightarrow> jsstring" where
  \<comment> \<open>\<open>v || d\<close>: \<open>undefined\<close> and the empty string are falsy\<close>
  "js_or v d = (case v of None \<Rightarrow> d | Some s \<Rightarrow> if s = [] then d else s)"

definition placeholder_url :: jsstring where
  "placeholder_url = lit ''https://your-project.supabase.co''"

definition placeholder_key :: jsstring where
  "placeholder_key = lit ''your-anon-key''"

definition SUPABASE_URL :: "config \<Rightarrow> jsstring" where
  "SUPABASE_URL env = js_or (REACT_APP_SUPABASE_URL env) placeholder_url"

definition SUPABASE_ANON_KEY :: "config \<Rightarrow> jsstring" where
  "SUPABASE_ANON_KEY env = js_or (REACT_APP_SUPABASE_ANON_KEY env) placeholder_key"

text \<open>
  What an awaited call can do: reject with an error, or resolve with a value. An error is
  represented by its message. A handler returns \<open>Inl\<close> when an error leaves it uncaught.
\<close>

type_synonym js_error = jsstring

datatype 'a awaited = Rejects js_error | Resolves 'a

record 'a sb_response =
  data :: "'a option"
  error :: "js_error option"

section \<open>The realtime component (src/unnamed/part\_000)\<close>

text \<open>
  Each handler runs to completion in one step: the outcome of the call it awaits is an
  argument, and the continuation after the \<open>await\<close> follows at once.
\<close>

definition fetchMemory_try :: "entry list sb_response awaited \<Rightarrow> client \<Rightarrow> js_error + client" where
  "fetchMemory_try outcome s =
     (case outcome of
        Rejects err \<Rightarrow> Inl err
      | Resolves r \<Rightarrow>
          (case error r of
             Some err \<Rightarrow> Inl err
           | None \<Rightarrow>
               (case data r of
                  Some d \<Rightarrow> Inr (s\<lparr>memoryDisplay := d, apiStatus := Connected\<rparr>)
                | None \<Rightarrow> Inr s)))"

definition fetchMemory :: "entry list sb_response awaited \<Rightarrow> client \<Rightarrow> js_error + client" where
  "fetchMemory outcome s =
     (let s0 = s\<lparr>net := net s @ [Net_select 5]\<rparr>
      in case fetchMemory_try outcome s0 of
           Inr s1 \<Rightarrow> Inr s1
         | Inl err \<Rightarrow> Inr (s0\<lparr>apiStatus := Error_status\<rparr>))"

definition onInsert :: "entry \<Rightarrow> client \<Rightarrow> client" where
  \<comment> \<open>the INSERT handler, \<open>payload.new\<close> being the entry\<close>
  "onInsert payload_new s =
     s\<lparr>memoryDisplay := payload_new # take 4 (memoryDisplay s),
       timers := timers s @ [e_score payload_new]\<rparr>"

definition onDelete :: "entry list sb_response awaited \<Rightarrow> client \<Rightarrow> js_error + client" where
  "onDelete outcome s = fetchMemory outcome s"

definition onTimeout :: "client \<Rightarrow> client" where
  "onTimeout s =
     (case timers s of
        [] \<Rightarrow> s
      | newScore # rest \<Rightarrow> s\<lparr>coherenceScore := newScore, timers := rest\<rparr>)"

definition setupRealtimeSubscription :: "js_error option \<Rightarrow> client \<Rightarrow> js_error + client" where
  \<comment> \<open>the argument is the error the channel set-up throws, if it throws\<close>
  "setupRealtimeSubscription thrown s =
     (let s0 = s\<lparr>net := net s @ [Net_subscribe_feed]\<rparr>
      in case thrown of
           None \<Rightarrow> Inr (s0\<lparr>subscribed := True\<rparr>)
         | Some err \<Rightarrow> Inr s0)"

definition setupPresenceChannel :: "js_error option \<Rightarrow> client \<Rightarrow> js_error + client" where
  "setupPresenceChannel thrown s =
     (let s0 = s\<lparr>net := net s @ [Net_subscribe_presence]\<rparr>
      in case thrown of
           None \<Rightarrow> Inr s0
         | Some err \<Rightarrow> Inr s0)"

definition bootstrap ::
  "config \<Rightarrow> entry list sb_response awaited \<Rightarrow> js_error option \<Rightarrow> js_error option \<Rightarrow> client
     \<Rightarrow> js_error + client" where
  \<comment> \<open>the effect run on mount\<close>
  "bootstrap env outcome thrown_feed thrown_presence s =
     (if SUPABASE_URL env = placeholder_url \<or> SUPABASE_ANON_KEY env = placeholder_key
      then Inr (s\<lparr>apiStatus := Not_configured\<rparr>)
      else case fetchMemory outcome s of
             Inl err \<Rightarrow> Inl err
           | Inr s1 \<Rightarrow>
               (case setupRealtimeSubscription thrown_feed s1 of
                  Inl err \<Rightarrow> Inl err
                | Inr s2 \<Rightarrow> setupPresenceChannel thrown_presence s2))"

definition make_entry :: "jsstring \<Rightarrow> jsstring \<Rightarrow> nat \<Rightarrow> nat \<Rightarrow> entry" where
  \<comment> \<open>the object \<open>entry\<close> of \<open>processHarmonicResponse\<close>\<close>
  "make_entry intent tone new_date date_now =
     \<lparr>e_x = intent, e_y = tone, e_z = result intent tone, e_score = score intent tone,
      e_timestamp = new_date, e_id = None, e_user_id = Some date_now\<rparr>"

definition insert_try :: "unit sb_response awaited \<Rightarrow> client \<Rightarrow> js_error + client" where
  "insert_try outcome s =
     (case outcome of
        Rejects err \<Rightarrow> Inl err
      | Resolves r \<Rightarrow> (case error r of Some err \<Rightarrow> Inl err | None \<Rightarrow> Inr s))"

definition processHarmonicResponse ::
  "nat \<Rightarrow> nat \<Rightarrow> unit sb_response awaited \<Rightarrow> client \<Rightarrow> js_error + client" where
  "processHarmonicResponse new_date date_now outcome s =
     (if trim (inputIntent s) = [] then Inr s
      else
        let s1 = s\<lparr>outputResponse := result (inputIntent s) (fieldTone s),
                   coherenceScore := score (inputIntent s) (fieldTone s)\<rparr>;
            entry = make_entry (inputIntent s) (fieldTone s) new_date date_now
        in if apiStatus s = Connected
           then
             (let s2 = s1\<lparr>net := net s1 @ [Net_insert entry]\<rparr>
              in case insert_try outcome s2 of
                   Inr s3 \<Rightarrow> Inr s3
                 | Inl err \<Rightarrow> Inr (s2\<lparr>memoryDisplay := entry # take 4 (memoryDisplay s2)\<rparr>))
           else Inr (s1\<lparr>memoryDisplay := entry # take 4 (memoryDisplay s1)\<rparr>))"

text \<open>
  What can happen to a mounted component: the mount effect, the two inputs, the button, the
  two notifications of the feed (delivered only while the handlers are registered) and a
  timer firing.
\<close>

datatype event =
    Mount "entry list sb_response awaited" "js_error option" "js_error option"
  | SetInputIntent jsstring
  | SetFieldTone jsstring
  | Click nat nat "unit sb_response awaited"
  | FeedInsert entry
  | FeedDelete "entry list sb_response awaited"
  | Timeout

fun step :: "config \<Rightarrow> event \<Rightarrow> client \<Rightarrow> js_error + client" where
  "step env (Mount outcome tf tp) s = bootstrap env outcome tf tp s"
| "step env (SetInputIntent v) s = Inr (s\<lparr>inputIntent := v\<rparr>)"
| "step env (SetFieldTone v) s = Inr (s\<lparr>fieldTone := v\<rparr>)"
| "step env (Click new_date date_now outcome) s = processHarmonicResponse new_date date_now outcome s"
| "step env (FeedInsert e) s = (if subscribed s then Inr (onInsert e s) else Inr s)"
| "step env (FeedDelete outcome) s = (if subscribed s then onDelete outcome s else Inr s)"
| "step env Timeout s = Inr (onTimeout s)"

fun run :: "config \<Rightarrow> event list \<Rightarrow> client \<Rightarrow> js_error + client" where
  "run env [] s = Inr s"
| "run env (ev # evs) s = (case step env ev s of Inl err \<Rightarrow> Inl err | Inr s1 \<Rightarrow> run env evs s1)"




section \<open>The fetch component (src/src/HarmonicTriangle.jsx)\<close>

datatype json_body = Json_array "entry list" | Json_other

record http_response =
  res_ok :: bool
  res_json :: "json_body awaited"

text \<open>
  The promise chain of the mount effect; an \<open>Inl\<close> of the chain carries the state reached
  when the error was thrown, for the \<open>.catch\<close> that follows.
\<close>

definition bootstrap_then :: "http_response awaited \<Rightarrow> client \<Rightarrow> (js_error \<times> client) + client" where
  "bootstrap_then outcome s =
     (case outcome of
        Rejects err \<Rightarrow> Inl (err, s)
      | Resolves res \<Rightarrow>
          if res_ok res
          then
            (let s1 = s\<lparr>apiStatus := Connected\<rparr>
             in case res_json res of
                  Rejects err \<Rightarrow> Inl (err, s1)
                | Resolves (Json_array d) \<Rightarrow> Inr (s1\<lparr>memoryDisplay := take 5 (rev d)\<rparr>)
                | Resolves Json_other \<Rightarrow> Inr s1)
          else Inl (lit ''API not available'', s))"

definition bootstrap_jsx :: "config \<Rightarrow> http_response awaited \<Rightarrow> client \<Rightarrow> js_error + client" where
  "bootstrap_jsx env outcome s =
     (if SUPABASE_URL env = placeholder_url \<or> SUPABASE_ANON_KEY env = placeholder_key
      then Inr (s\<lparr>apiStatus := Not_configured\<rparr>)
      else case bootstrap_then outcome (s\<lparr>net := net s @ [Net_fetch_get]\<rparr>) of
             Inr s1 \<Rightarrow> Inr s1
           | Inl (err, s1) \<Rightarrow> Inr (s1\<lparr>apiStatus := Error_status\<rparr>))"

definition memoryEntry :: "jsstring \<Rightarrow> jsstring \<Rightarrow> nat \<Rightarrow> entry" where
  "memoryEntry intent tone new_date =
     \<lparr>e_x = intent, e_y = tone, e_z = result intent tone, e_score = score intent tone,
      e_timestamp = new_date, e_id = None, e_user_id = None\<rparr>"

definition processHarmonicResponse_jsx ::
  "nat \<Rightarrow> http_response awaited \<Rightarrow> client \<Rightarrow> js_error + client" where
  "processHarmonicResponse_jsx new_date outcome s =
     (if trim (inputIntent s) = [] then Inr s
      else
        let s1 = s\<lparr>outputResponse := result (inputIntent s) (fieldTone s),
                   coherenceScore := score (inputIntent s) (fieldTone s)\<rparr>;
            me = memoryEntry (inputIntent s) (fieldTone s) new_date
        in if apiStatus s = Connected
           then
             (let s2 = s1\<lparr>net := net s1 @ [Net_fetch_post me]\<rparr>
              in case outcome of
                   Resolves res \<Rightarrow> Inr (s2\<lparr>memoryDisplay := take 5 (me # memoryDisplay s2)\<rparr>)
                 | Rejects err \<Rightarrow> Inr (s2\<lparr>memoryDisplay := take 5 (me # memoryDisplay s2)\<rparr>))
           else Inr (s1\<lparr>memoryDisplay := take 5 (me # memoryDisplay s1)\<rparr>))"

datatype event_jsx =
    Mount_jsx "http_response awaited"
  | SetInputIntent_jsx jsstring
  | SetFieldTone_jsx jsstring
  | Click_jsx nat "http_response awaited"

fun step_jsx :: "config \<Rightarrow> event_jsx \<Rightarrow> client \<Rightarrow> js_error + client" where
  "step_jsx env (Mount_jsx outcome) s = bootstrap_jsx env outcome s"
| "step_jsx env (SetInputIntent_jsx v) s = Inr (s\<lparr>inputIntent := v\<rparr>)"
| "step_jsx env (SetFieldTone_jsx v) s = Inr (s\<lparr>fieldTone := v\<rparr>)"
| "step_jsx env (Click_jsx new_date outcome) s = processHarmonicResponse_jsx new_date outcome s"

fun run_jsx :: "config \<Rightarrow> event_jsx list \<Rightarrow> client \<Rightarrow> js_error + client" where
  "run_jsx env [] s = Inr s"
| "run_jsx env (ev # evs) s =
     (case step_jsx env ev s of Inl err \<Rightarrow> Inl err | Inr s1 \<Rightarrow> run_jsx env evs s1)"

section \<open>Notions used to state the properties\<close>

text \<open>
  A list of entries is most-recent-first when the timestamps never increase along it.
\<close>

definition most_recent_first :: "entry list \<Rightarrow> bool" where
  "most_recent_first v = sorted_wrt (\<lambda>a b. e_timestamp b \<le> e_timestamp a) v"

text \<open>A request body used for the concrete instances below.\<close>

abbreviation sample_body :: entry where
  "sample_body \<equiv> \<lparr>e_x = [0x48, 0x69], e_y = [0x4E], e_z = [], e_score = 54,
                   e_timestamp = 0, e_id = None, e_user_id = None\<rparr>"

text \<open>An intent is blank when it is empty or made of whitespace only.\<close>

definition intent_blank :: "jsstring \<Rightarrow> bool" where
  "intent_blank v = list_all is_whitespace v"

text \<open>The state of a fresh component after typing \<open>Hello\<close> and choosing \<open>Trust\<close>.\<close>

abbreviation hello_trust :: client where
  "hello_trust \<equiv> init\<lparr>inputIntent := lit ''Hello'', fieldTone := lit ''Trust''\<rparr>"

text \<open>
  A call to the store has failed when it rejects or answers with an error; the store is
  unavailable to an event when the call the event makes fails.
\<close>

definition call_failed :: "'a sb_response awaited \<Rightarrow> bool" where
  "call_failed outcome = (case outcome of Rejects err \<Rightarrow> True | Resolves r \<Rightarrow> error r \<noteq> None)"

fun unavailable :: "event \<Rightarrow> bool" where
  "unavailable (Mount outcome tf tp) = call_failed outcome"
| "unavailable (Click nd dn outcome) = call_failed outcome"
| "unavailable (FeedDelete outcome) = call_failed outcome"
| "unavailable (SetInputIntent v) = True"
| "unavailable (SetFieldTone v) = True"
| "unavailable (FeedInsert e) = True"
| "unavailable Timeout = True"

text \<open>
  \<open>fetchMemory\<close> asks the store for \<open>limit(5)\<close>: an answer is within the limit when it
  brings at most five rows.
\<close>

definition answer_within_limit :: "entry list sb_response awaited \<Rightarrow> bool" where
  "answer_within_limit outcome =
     (case outcome of
        Rejects err \<Rightarrow> True
      | Resolves r \<Rightarrow> (case data r of None \<Rightarrow> True | Some d \<Rightarrow> length d \<le> 5))"

fun seed_within_limit :: "event \<Rightarrow> bool" where
  "seed_within_limit (Mount outcome tf tp) = answer_within_limit outcome"
| "seed_within_limit (FeedDelete outcome) = answer_within_limit outcome"
| "seed_within_limit (Click nd dn outcome) = True"
| "seed_within_limit (SetInputIntent v) = True"
| "seed_within_limit (SetFieldTone v) = True"
| "seed_within_limit (FeedInsert e) = True"
| "seed_within_limit Timeout = True"


text \<open>A configured environment, and a row of the store with id \<open>n\<close> and timestamp \<open>t\<close>.\<close>

abbreviation configured_env :: config where
  "configured_env \<equiv> \<lparr>REACT_APP_SUPABASE_URL = Some (lit ''https://abc.supabase.co''),
                      REACT_APP_SUPABASE_ANON_KEY = Some (lit ''eyJ'')\<rparr>"

abbreviation stored_entry :: "nat \<Rightarrow> nat \<Rightarrow> entry" where
  "stored_entry n t \<equiv> \<lparr>e_x = [0x48, 0x69], e_y = [0x4E], e_z = [], e_score = 54,
                       e_timestamp = t, e_id = Some n, e_user_id = None\<rparr>"


text \<open>
  \<open>returns r P\<close>: the handler (or the run) ended without an uncaught error, in a state
  that satisfies \<open>P\<close>.
\<close>

definition returns :: "js_error + client \<Rightarrow> (client \<Rightarrow> bool) \<Rightarrow> bool" where
  "returns r P = (case r of Inl err \<Rightarrow> False | Inr s \<Rightarrow> P s)"

section \<open>Properties of the store (server.js)\<close>


lemma slice_from_end_absorb:
  "slice_from_end n (slice_from_end n xs @ ys) = slice_from_end n (xs @ ys)"
  by (cases "length xs \<le> n") (simp_all add: slice_from_end_def add.commute)

lemma app_post_store:
  "snd (app_post t d b hm) = slice_from_end 100 (hm @ [newEntry t d b])"
  by (simp add: app_post_def Let_def slice_from_end_def)

lemma app_post_response: "fst (app_post t d b hm) = (201, newEntry t d b)"
  by (simp add: app_post_def Let_def)

lemma posts_responses:
  "fst (posts reqs hm) = map (\<lambda>(t, d, b). (201, newEntry t d b)) reqs"
proof (induction reqs arbitrary: hm)
  case Nil show ?case by simp
next
  case (Cons r rs)
  obtain t d b where r: "r = (t, d, b)" by (cases r) auto
  show ?case using Cons.IH [of "snd (app_post t d b hm)"]
    by (simp add: r split_beta app_post_response)
qed

lemma posts_store:
  "slice_from_end 100 (snd (posts reqs hm))
     = slice_from_end 100 (hm @ map (\<lambda>(t, d, b). newEntry t d b) reqs)"
proof (induction reqs arbitrary: hm)
  case Nil show ?case by simp
next
  case (Cons r rs)
  obtain t d b where r: "r = (t, d, b)" by (cases r) auto
  have "slice_from_end 100 (snd (posts (r # rs) hm))
      = slice_from_end 100 (snd (posts rs (snd (app_post t d b hm))))"
    by (simp add: r split_beta)
  also have "\<dots> = slice_from_end 100 (slice_from_end 100 (hm @ [newEntry t d b])
                       @ map (\<lambda>(t, d, b). newEntry t d b) rs)"
    by (simp add: Cons.IH app_post_store)
  also have "\<dots> = slice_from_end 100 (hm @ map (\<lambda>(t, d, b). newEntry t d b) (r # rs))"
    by (simp add: slice_from_end_absorb r)
  finally show ?case .
qed

lemma posts_store_bounded:
  "length hm \<le> 100 \<Longrightarrow> length (snd (posts reqs hm)) \<le> 100"
proof (induction reqs arbitrary: hm)
  case Nil then show ?case by simp
next
  case (Cons r rs)
  obtain t d b where r: "r = (t, d, b)" by (cases r) auto
  have "length (snd (app_post t d b hm)) \<le> 100"
    by (simp add: app_post_store slice_from_end_def)
  from Cons.IH [OF this] show ?case by (simp add: r split_beta)
qed

lemma posts_nonempty_bounded:
  "reqs \<noteq> [] \<Longrightarrow> length (snd (posts reqs hm)) \<le> 100"
proof (cases reqs)
  case Nil then show "reqs \<noteq> [] \<Longrightarrow> ?thesis" by simp
next
  case (Cons r rs)
  obtain t d b where r: "r = (t, d, b)" by (cases r) auto
  have "length (snd (app_post t d b hm)) \<le> 100"
    by (simp add: app_post_store slice_from_end_def)
  from posts_store_bounded [OF this] show ?thesis by (simp add: Cons r split_beta)
qed

lemma slice_from_end_id: "length xs \<le> n \<Longrightarrow> slice_from_end n xs = xs"
  by (simp add: slice_from_end_def)

text \<open>
  C5: after more than 100 POSTs, served one after another from any store, the store holds
  exactly the last 100 of the entries appended, in the order of their insertion (the
  earlier ones were dropped from the front), and every request was answered with status
  201 and its entry.
\<close>

theorem posts_retain_last_CAP:
  assumes "100 < length reqs"
  shows "snd (posts reqs hm) = drop (length reqs - 100) (map (\<lambda>(t, d, b). newEntry t d b) reqs)
       \<and> length (snd (posts reqs hm)) = 100
       \<and> fst (posts reqs hm) = map (\<lambda>(t, d, b). (201, newEntry t d b)) reqs"
proof -
  from assms have ne: "reqs \<noteq> []" by auto
  have "snd (posts reqs hm) = slice_from_end 100 (snd (posts reqs hm))"
    by (simp add: slice_from_end_id posts_nonempty_bounded [OF ne])
  also have "\<dots> = slice_from_end 100 (hm @ map (\<lambda>(t, d, b). newEntry t d b) reqs)"
    by (rule posts_store)
  also have "\<dots> = drop (length reqs - 100) (map (\<lambda>(t, d, b). newEntry t d b) reqs)"
    using assms by (simp add: slice_from_end_def)
  finally have st: "snd (posts reqs hm) = drop (length reqs - 100) (map (\<lambda>(t, d, b). newEntry t d b) reqs)" .
  have "length (snd (posts reqs hm)) = 100" using assms by (simp add: st)
  with st posts_responses show ?thesis by simp
qed



theorem posts_retain_last_CAP_witness:
  "100 < length (map (\<lambda>n. (n, n, sample_body)) [0..<101])
   \<and> snd (posts (map (\<lambda>n. (n, n, sample_body)) [0..<101]) [])
       = map (\<lambda>n. \<lparr>e_x = [0x48, 0x69], e_y = [0x4E], e_z = [], e_score = 54,
                       e_timestamp = n, e_id = Some n, e_user_id = None\<rparr>) [1..<101]"
  using posts_retain_last_CAP [of "map (\<lambda>n. (n, n, sample_body)) [0..<101]" "[]"]
  by (simp add: drop_map newEntry_def comp_def)

text \<open>
  C10: the POST handler answers with the entry whose id is the reading of \<open>Date.now()\<close>;
  two requests served at the same reading get the same id, and the ids in the store are
  then not distinct.
\<close>

theorem post_id_is_clock_reading:
  "fst (app_post t d b hm) = (201, newEntry t d b)
   \<and> e_id (newEntry t d b) = Some t
   \<and> e_id (snd (fst (app_post t d1 b1 hm1))) = e_id (snd (fst (app_post t d2 b2 hm2)))
   \<and> \<not> distinct (map e_id (snd (posts [(t, d1, b1), (t, d2, b2)] hm)))"
proof -
  let ?n1 = "newEntry t d1 b1" and ?n2 = "newEntry t d2 b2"
  have ids: "e_id ?n1 = Some t" "e_id ?n2 = Some t" by (simp_all add: newEntry_def)
  have "snd (posts [(t, d1, b1), (t, d2, b2)] hm)
        = slice_from_end 100 (slice_from_end 100 (hm @ [?n1]) @ [?n2])"
    by (simp add: split_beta app_post_store)
  also have "\<dots> = slice_from_end 100 (hm @ [?n1, ?n2])"
    by (simp add: slice_from_end_absorb)
  also have "\<dots> = drop (length hm + 2 - 100) hm @ [?n1, ?n2]"
    by (simp add: slice_from_end_def)
  finally have "map e_id (snd (posts [(t, d1, b1), (t, d2, b2)] hm))
        = map e_id (drop (length hm + 2 - 100) hm) @ [Some t, Some t]"
    by (simp add: ids)
  then have nd: "\<not> distinct (map e_id (snd (posts [(t, d1, b1), (t, d2, b2)] hm)))"
    by simp
  have id: "e_id (newEntry t d b) = Some t"
    by (simp add: newEntry_def)
  have eq: "e_id (snd (fst (app_post t d1 b1 hm1))) = e_id (snd (fst (app_post t d2 b2 hm2)))"
    by (simp add: app_post_response ids)
  from nd id eq app_post_response [of t d b hm] show ?thesis by blast
qed





section \<open>Properties of the two components\<close>

lemma score_of_hash_bounds: "50 \<le> score_of_hash h \<and> score_of_hash h \<le> 100"
proof -
  have "h mod 100 < 100" by simp
  then show ?thesis unfolding score_of_hash_def by linarith
qed

lemma all_dropWhile_iff:
  "(\<forall>c\<in>set (dropWhile P v). P c) \<longleftrightarrow> (\<forall>c\<in>set v. P c)"
proof
  assume a: "\<forall>c\<in>set (dropWhile P v). P c"
  have "dropWhile P v = []"
  proof (rule ccontr)
    assume n: "dropWhile P v \<noteq> []"
    then have "\<not> P (hd (dropWhile P v))" by (simp add: hd_dropWhile)
    moreover from n have "hd (dropWhile P v) \<in> set (dropWhile P v)" by simp
    ultimately show False using a by blast
  qed
  then show "\<forall>c\<in>set v. P c" by (simp add: dropWhile_eq_Nil_conv)
next
  assume "\<forall>c\<in>set v. P c"
  then show "\<forall>c\<in>set (dropWhile P v). P c" by (auto dest: set_dropWhileD)
qed

lemma trim_empty_iff: "trim v = [] \<longleftrightarrow> list_all is_whitespace v"
  by (simp add: trim_def dropWhile_eq_Nil_conv all_dropWhile_iff list_all_iff)

lemma processHarmonicResponse_total: "\<exists>s'. processHarmonicResponse nd dn outcome s = Inr s'"
  by (auto simp: processHarmonicResponse_def Let_def split: sum.splits)

lemma processHarmonicResponse_jsx_total: "\<exists>s'. processHarmonicResponse_jsx nd outcome s = Inr s'"
  by (auto simp: processHarmonicResponse_jsx_def Let_def split: awaited.splits)

lemma processHarmonicResponse_score:
  "trim (inputIntent s) \<noteq> [] \<Longrightarrow> processHarmonicResponse nd dn outcome s = Inr s'
     \<Longrightarrow> coherenceScore s' = score (inputIntent s) (fieldTone s)"
  by (auto simp: processHarmonicResponse_def Let_def insert_try_def
           split: if_splits sum.splits awaited.splits option.splits)

lemma processHarmonicResponse_jsx_score:
  "trim (inputIntent s) \<noteq> [] \<Longrightarrow> processHarmonicResponse_jsx nd outcome s = Inr s'
     \<Longrightarrow> coherenceScore s' = score (inputIntent s) (fieldTone s)"
  by (auto simp: processHarmonicResponse_jsx_def Let_def split: if_splits awaited.splits)

text \<open>
  C8: for every \<open>h\<close> in [0,99] the score \<open>100 - |50 - h|\<close> lies in [0,100] and is 100
  exactly when \<open>h = 50\<close>; the score of every intent and tone is in [0,100], and it is
  the score the button handler of either component stores in the entry and shows.
\<close>

theorem score_in_range:
  "(\<forall>h<100. score_of_hash h = 100 - \<bar>50 - int h\<bar>
            \<and> 0 \<le> score_of_hash h \<and> score_of_hash h \<le> 100
            \<and> (score_of_hash h = 100 \<longleftrightarrow> h = 50))
   \<and> 0 \<le> score intent tone \<and> score intent tone \<le> 100
   \<and> e_score (make_entry intent tone nd dn) = score intent tone
   \<and> e_score (memoryEntry intent tone nd) = score intent tone
   \<and> (\<forall>s s'. inputIntent s = intent \<and> fieldTone s = tone \<and> trim intent \<noteq> []
         \<and> (processHarmonicResponse nd dn outcome s = Inr s'
             \<or> processHarmonicResponse_jsx nd outcome_jsx s = Inr s')
         \<longrightarrow> coherenceScore s' = score intent tone)"
proof -
  have a: "\<forall>h<100. score_of_hash h = 100 - \<bar>50 - int h\<bar>
            \<and> 0 \<le> score_of_hash h \<and> score_of_hash h \<le> 100
            \<and> (score_of_hash h = 100 \<longleftrightarrow> h = 50)"
    by (auto simp: score_of_hash_def)
  have b: "0 \<le> score intent tone \<and> score intent tone \<le> 100"
    using score_of_hash_bounds [of "hash intent tone"] by (simp add: score_def)
  have c: "e_score (make_entry intent tone nd dn) = score intent tone"
    by (simp add: make_entry_def)
  have d: "e_score (memoryEntry intent tone nd) = score intent tone"
    by (simp add: memoryEntry_def)
  have e: "\<forall>s s'. inputIntent s = intent \<and> fieldTone s = tone \<and> trim intent \<noteq> []
         \<and> (processHarmonicResponse nd dn outcome s = Inr s'
             \<or> processHarmonicResponse_jsx nd outcome_jsx s = Inr s')
         \<longrightarrow> coherenceScore s' = score intent tone"
    using processHarmonicResponse_score processHarmonicResponse_jsx_score by blast
  from a b c d e show ?thesis by blast
qed

lemma hash_hello_trust: "hash (lit ''Hello'') (lit ''Trust'') = 11"
  by (simp add: hash_def combinedField_def lit_def)

lemma trim_hello: "trim (lit ''Hello'') \<noteq> []"
  by (simp add: trim_empty_iff lit_def is_whitespace_def)

theorem score_in_range_witness:
  "(11::nat) < 100 \<and> score_of_hash 11 = 61 \<and> score_of_hash 50 = 100
   \<and> score (lit ''Hello'') (lit ''Trust'') = 61
   \<and> map_sum id coherenceScore
        (processHarmonicResponse 5 5 (Rejects (lit ''down'')) hello_trust) = Inr 61"
proof -
  have s: "score (lit ''Hello'') (lit ''Trust'') = 61"
    by (simp add: score_def hash_hello_trust score_of_hash_def)
  obtain s' where r: "processHarmonicResponse 5 5 (Rejects (lit ''down'')) hello_trust = Inr s'"
    using processHarmonicResponse_total by blast
  have "inputIntent hello_trust = lit ''Hello'' \<and> fieldTone hello_trust = lit ''Trust''"
    by (simp add: init_def)
  with score_in_range [of "lit ''Hello''" "lit ''Trust''" 5 5 "Rejects (lit ''down'')"] r trim_hello
  have "coherenceScore s' = score (lit ''Hello'') (lit ''Trust'')" by blast
  with r s have "map_sum id coherenceScore
        (processHarmonicResponse 5 5 (Rejects (lit ''down'')) hello_trust) = Inr 61"
    by simp
  moreover have "score_of_hash 11 = 61 \<and> score_of_hash 50 = 100"
    by (simp add: score_of_hash_def)
  ultimately show ?thesis using s by simp
qed

text \<open>
  C9: with an intent that is empty or whitespace only, the button handler of either
  component returns the state it was given: view, response, score, connection state and
  the log of requests sent to the store are all unchanged.
\<close>

theorem blank_intent_is_noop:
  assumes "intent_blank (inputIntent s)"
  shows "processHarmonicResponse nd dn outcome s = Inr s
       \<and> processHarmonicResponse_jsx nd outcome_jsx s = Inr s
       \<and> step env (Click nd dn outcome) s = Inr s
       \<and> step_jsx env (Click_jsx nd outcome_jsx) s = Inr s"
  using assms
  by (simp add: intent_blank_def trim_empty_iff processHarmonicResponse_def
        processHarmonicResponse_jsx_def)

theorem blank_intent_is_noop_witness:
  "intent_blank (inputIntent (init\<lparr>inputIntent := [0x20, 0x09, 0x3000], apiStatus := Connected\<rparr>))
   \<and> processHarmonicResponse 5 5 (Resolves \<lparr>data = None, error = None\<rparr>)
        (init\<lparr>inputIntent := [0x20, 0x09, 0x3000], apiStatus := Connected\<rparr>)
       = Inr (init\<lparr>inputIntent := [0x20, 0x09, 0x3000], apiStatus := Connected\<rparr>)
   \<and> intent_blank (inputIntent init)
   \<and> processHarmonicResponse_jsx 5 (Rejects (lit ''down'')) init = Inr init"
proof -
  have h1: "intent_blank (inputIntent (init\<lparr>inputIntent := [0x20, 0x09, 0x3000], apiStatus := Connected\<rparr>))"
    by (simp add: intent_blank_def is_whitespace_def)
  have h2: "intent_blank (inputIntent init)"
    by (simp add: intent_blank_def init_def)
  from blank_intent_is_noop [OF h1, of 5 5 "Resolves \<lparr>data = None, error = None\<rparr>"]
       blank_intent_is_noop [OF h2, of 5 5 _ "Rejects (lit ''down'')"] h1 h2
  show ?thesis by blast
qed

subsection \<open>Handlers never let an error escape\<close>

lemma fetchMemory_total: "\<exists>s'. fetchMemory outcome s = Inr s'"
  by (simp add: fetchMemory_def Let_def split: sum.split)

lemma bootstrap_total: "\<exists>s'. bootstrap env outcome tf tp s = Inr s'"
proof -
  obtain s1 where f: "fetchMemory outcome s = Inr s1" using fetchMemory_total by blast
  show ?thesis
    by (cases tf; cases tp)
       (simp_all add: bootstrap_def f setupRealtimeSubscription_def setupPresenceChannel_def Let_def)
qed

lemma bootstrap_jsx_total: "\<exists>s'. bootstrap_jsx env outcome s = Inr s'"
  by (simp add: bootstrap_jsx_def split: sum.split prod.split)

lemma step_total: "\<exists>s'. step env ev s = Inr s'"
proof (cases ev)
  case (Mount outcome tf tp)
  then show ?thesis using bootstrap_total [of env outcome tf tp s] by simp
next
  case (Click nd dn outcome)
  then show ?thesis using processHarmonicResponse_total [of nd dn outcome s] by simp
next
  case (FeedDelete outcome)
  then show ?thesis using fetchMemory_total [of outcome s] by (simp add: onDelete_def)
qed simp_all

lemma step_jsx_total: "\<exists>s'. step_jsx env ev s = Inr s'"
proof (cases ev)
  case (Mount_jsx outcome)
  then show ?thesis using bootstrap_jsx_total [of env outcome s] by simp
next
  case (Click_jsx nd outcome)
  then show ?thesis using processHarmonicResponse_jsx_total [of nd outcome s] by simp
qed simp_all

lemma run_returns:
  assumes "\<And>ev s s'. ev \<in> set evs \<Longrightarrow> I s \<Longrightarrow> step env ev s = Inr s' \<Longrightarrow> I s'"
    and "I s"
  shows "returns (run env evs s) I"
  using assms
proof (induction evs arbitrary: s)
  case Nil
  then show ?case by (simp add: returns_def)
next
  case (Cons ev evs)
  obtain s1 where s1: "step env ev s = Inr s1" using step_total by blast
  have "ev \<in> set (ev # evs)" by simp
  from Cons.prems(1) [OF this Cons.prems(2) s1] have i1: "I s1" .
  have "returns (run env evs s1) I"
  proof (rule Cons.IH)
    fix e t t'
    assume "e \<in> set evs" and t: "I t" "step env e t = Inr t'"
    then have "e \<in> set (ev # evs)" by simp
    from Cons.prems(1) [OF this t] show "I t'" .
  next
    show "I s1" by (rule i1)
  qed
  moreover have "run env (ev # evs) s = run env evs s1" by (simp add: s1)
  ultimately show ?case by (simp only:)
qed

lemma run_jsx_returns:
  assumes "\<And>ev s s'. ev \<in> set evs \<Longrightarrow> I s \<Longrightarrow> step_jsx env ev s = Inr s' \<Longrightarrow> I s'"
    and "I s"
  shows "returns (run_jsx env evs s) I"
  using assms
proof (induction evs arbitrary: s)
  case Nil
  then show ?case by (simp add: returns_def)
next
  case (Cons ev evs)
  obtain s1 where s1: "step_jsx env ev s = Inr s1" using step_jsx_total by blast
  have "ev \<in> set (ev # evs)" by simp
  from Cons.prems(1) [OF this Cons.prems(2) s1] have i1: "I s1" .
  have "returns (run_jsx env evs s1) I"
  proof (rule Cons.IH)
    fix e t t'
    assume "e \<in> set evs" and t: "I t" "step_jsx env e t = Inr t'"
    then have "e \<in> set (ev # evs)" by simp
    from Cons.prems(1) [OF this t] show "I t'" .
  next
    show "I s1" by (rule i1)
  qed
  moreover have "run_jsx env (ev # evs) s = run_jsx env evs s1" by (simp add: s1)
  ultimately show ?case by (simp only:)
qed

subsection \<open>The view\<close>

lemma fetchMemory_view_bound:
  "answer_within_limit outcome \<Longrightarrow> length (memoryDisplay s) \<le> 5
     \<Longrightarrow> fetchMemory outcome s = Inr s' \<Longrightarrow> length (memoryDisplay s') \<le> 5"
  by (auto simp: fetchMemory_def fetchMemory_try_def answer_within_limit_def Let_def
           split: awaited.splits option.splits)

lemma fetchMemory_subscribed: "fetchMemory outcome s = Inr s' \<Longrightarrow> subscribed s' = subscribed s"
  by (auto simp: fetchMemory_def fetchMemory_try_def Let_def split: awaited.splits option.splits)

lemma bootstrap_view_bound:
  assumes "answer_within_limit outcome" "length (memoryDisplay s) \<le> 5"
    "bootstrap env outcome tf tp s = Inr s'"
  shows "length (memoryDisplay s') \<le> 5"
proof (cases "SUPABASE_URL env = placeholder_url \<or> SUPABASE_ANON_KEY env = placeholder_key")
  case True
  with assms show ?thesis by (auto simp: bootstrap_def)
next
  case False
  obtain s1 where f: "fetchMemory outcome s = Inr s1" using fetchMemory_total by blast
  have "length (memoryDisplay s1) \<le> 5" using fetchMemory_view_bound [OF assms(1,2) f] .
  with assms(3) False f show ?thesis
    by (cases tf; cases tp)
       (auto simp: bootstrap_def setupRealtimeSubscription_def setupPresenceChannel_def Let_def)
qed

lemma processHarmonicResponse_view_bound:
  "length (memoryDisplay s) \<le> 5 \<Longrightarrow> processHarmonicResponse nd dn outcome s = Inr s'
     \<Longrightarrow> length (memoryDisplay s') \<le> 5"
  by (auto simp: processHarmonicResponse_def insert_try_def Let_def
           split: if_splits awaited.splits option.splits)

lemma step_view_bound:
  "seed_within_limit ev \<Longrightarrow> length (memoryDisplay s) \<le> 5 \<Longrightarrow> step env ev s = Inr s'
     \<Longrightarrow> length (memoryDisplay s') \<le> 5"
proof (cases ev)
  case (Mount outcome tf tp)
  then show "seed_within_limit ev \<Longrightarrow> length (memoryDisplay s) \<le> 5 \<Longrightarrow> step env ev s = Inr s'
     \<Longrightarrow> length (memoryDisplay s') \<le> 5"
    using bootstrap_view_bound by simp
next
  case (Click nd dn outcome)
  then show "seed_within_limit ev \<Longrightarrow> length (memoryDisplay s) \<le> 5 \<Longrightarrow> step env ev s = Inr s'
     \<Longrightarrow> length (memoryDisplay s') \<le> 5"
    using processHarmonicResponse_view_bound by simp
next
  case (FeedDelete outcome)
  then show "seed_within_limit ev \<Longrightarrow> length (memoryDisplay s) \<le> 5 \<Longrightarrow> step env ev s = Inr s'
     \<Longrightarrow> length (memoryDisplay s') \<le> 5"
    using fetchMemory_view_bound by (auto simp: onDelete_def split: if_splits)
qed (auto simp: onInsert_def onTimeout_def split: if_splits list.splits)

lemma step_jsx_view_bound:
  "length (memoryDisplay s) \<le> 5 \<Longrightarrow> step_jsx env ev s = Inr s' \<Longrightarrow> length (memoryDisplay s') \<le> 5"
  by (cases ev)
     (auto simp: bootstrap_jsx_def bootstrap_then_def processHarmonicResponse_jsx_def Let_def
           split: if_splits awaited.splits json_body.splits sum.splits prod.splits)

lemma onInsert_keeps_order:
  assumes "most_recent_first (memoryDisplay s)"
    and "list_all (\<lambda>e'. e_timestamp e' \<le> e_timestamp e) (memoryDisplay s)"
  shows "most_recent_first (memoryDisplay (onInsert e s))"
proof -
  have "sorted_wrt (\<lambda>a b. e_timestamp b \<le> e_timestamp a) (take 4 (memoryDisplay s))"
    using assms(1) by (simp add: most_recent_first_def sorted_wrt_take)
  moreover have "\<forall>e'\<in>set (take 4 (memoryDisplay s)). e_timestamp e' \<le> e_timestamp e"
    using assms(2) by (auto simp: list_all_iff dest: in_set_takeD)
  ultimately show ?thesis by (simp add: onInsert_def most_recent_first_def)
qed

lemma insert_try_failed: "call_failed outcome \<Longrightarrow> \<exists>err. insert_try outcome s = Inl err"
  by (auto simp: call_failed_def insert_try_def split: awaited.splits option.splits)

lemma insert_try_ok: "\<not> call_failed outcome \<Longrightarrow> insert_try outcome s = Inr s"
  by (auto simp: call_failed_def insert_try_def split: awaited.splits option.splits)

lemma fetchMemory_failed:
  "call_failed outcome \<Longrightarrow>
     fetchMemory outcome s = Inr (s\<lparr>net := net s @ [Net_select 5], apiStatus := Error_status\<rparr>)"
  by (auto simp: call_failed_def fetchMemory_def fetchMemory_try_def Let_def
           split: awaited.splits option.splits)

lemma local_append:
  assumes "\<not> intent_blank (inputIntent s)" "apiStatus s \<noteq> Connected"
  shows "processHarmonicResponse nd dn outcome s =
           Inr (s\<lparr>outputResponse := result (inputIntent s) (fieldTone s),
                  coherenceScore := score (inputIntent s) (fieldTone s),
                  memoryDisplay := make_entry (inputIntent s) (fieldTone s) nd dn
                                     # take 4 (memoryDisplay s)\<rparr>)"
  using assms by (simp add: processHarmonicResponse_def intent_blank_def trim_empty_iff Let_def)

lemma connected_append_failed:
  assumes "\<not> intent_blank (inputIntent s)" "apiStatus s = Connected" "call_failed outcome"
  shows "processHarmonicResponse nd dn outcome s =
           Inr (s\<lparr>outputResponse := result (inputIntent s) (fieldTone s),
                  coherenceScore := score (inputIntent s) (fieldTone s),
                  net := net s @ [Net_insert (make_entry (inputIntent s) (fieldTone s) nd dn)],
                  memoryDisplay := make_entry (inputIntent s) (fieldTone s) nd dn
                                     # take 4 (memoryDisplay s)\<rparr>)"
proof -
  let ?s2 = "s\<lparr>outputResponse := result (inputIntent s) (fieldTone s),
                coherenceScore := score (inputIntent s) (fieldTone s),
                net := net s @ [Net_insert (make_entry (inputIntent s) (fieldTone s) nd dn)]\<rparr>"
  from insert_try_failed [OF assms(3)] obtain err where "insert_try outcome ?s2 = Inl err"
    by blast
  with assms(1,2) show ?thesis
    by (simp add: processHarmonicResponse_def intent_blank_def trim_empty_iff Let_def)
qed

lemma connected_append_ok:
  assumes "\<not> intent_blank (inputIntent s)" "apiStatus s = Connected" "\<not> call_failed outcome"
  shows "processHarmonicResponse nd dn outcome s =
           Inr (s\<lparr>outputResponse := result (inputIntent s) (fieldTone s),
                  coherenceScore := score (inputIntent s) (fieldTone s),
                  net := net s @ [Net_insert (make_entry (inputIntent s) (fieldTone s) nd dn)]\<rparr>)"
  using assms
  by (simp add: processHarmonicResponse_def intent_blank_def trim_empty_iff Let_def insert_try_ok)

lemma jsx_append:
  assumes "\<not> intent_blank (inputIntent s)"
  shows "map_sum id memoryDisplay (processHarmonicResponse_jsx nd outcome s)
           = Inr (take 5 (memoryEntry (inputIntent s) (fieldTone s) nd # memoryDisplay s))"
    and "map_sum id apiStatus (processHarmonicResponse_jsx nd outcome s) = Inr (apiStatus s)"
    and "map_sum id net (processHarmonicResponse_jsx nd outcome s)
           = Inr (if apiStatus s = Connected
                  then net s @ [Net_fetch_post (memoryEntry (inputIntent s) (fieldTone s) nd)]
                  else net s)"
  using assms
  by (auto simp: processHarmonicResponse_jsx_def intent_blank_def trim_empty_iff Let_def
           split: awaited.splits)

lemma take5_Cons: "take 5 (a # xs) = a # take 4 xs"
  by simp

lemma onInsert_iterated:
  "memoryDisplay ((onInsert e ^^ Suc k) s) = take 5 (replicate (Suc k) e @ memoryDisplay s)"
proof (induction k)
  case 0
  show ?case by (simp add: onInsert_def)
next
  case (Suc k)
  have "memoryDisplay ((onInsert e ^^ Suc (Suc k)) s)
          = e # take 4 (memoryDisplay ((onInsert e ^^ Suc k) s))"
    by (simp add: onInsert_def)
  also have "\<dots> = e # take 4 (take 5 (replicate (Suc k) e @ memoryDisplay s))"
    by (simp only: Suc.IH)
  also have "\<dots> = e # take 4 (replicate (Suc k) e @ memoryDisplay s)"
    by (simp only: take_take) simp
  also have "\<dots> = take 5 (e # (replicate (Suc k) e @ memoryDisplay s))"
    by (rule take5_Cons [symmetric])
  also have "e # (replicate (Suc k) e @ memoryDisplay s)
               = replicate (Suc (Suc k)) e @ memoryDisplay s"
    by simp
  finally show ?case .
qed

text \<open>
  C1 (amended): the INSERT handler puts the delivered entry at the head of the view and
  keeps the first four entries of the previous view, whether or not the entry is already
  there; after \<open>k + 1\<close> deliveries of the same entry the view starts with
  \<open>min (k + 1) 5\<close> copies of it.
\<close>

theorem insert_echo_is_not_deduplicated:
  "memoryDisplay (onInsert e s) = e # take 4 (memoryDisplay s)
   \<and> memoryDisplay (onInsert e (onInsert e s)) = e # e # take 3 (memoryDisplay s)
   \<and> memoryDisplay ((onInsert e ^^ Suc k) s) = take 5 (replicate (Suc k) e @ memoryDisplay s)"
proof -
  have "memoryDisplay (onInsert e (onInsert e s)) = e # e # take 3 (memoryDisplay s)"
    by (simp add: onInsert_def)
  moreover have "memoryDisplay (onInsert e s) = e # take 4 (memoryDisplay s)"
    by (simp add: onInsert_def)
  ultimately show ?thesis using onInsert_iterated by blast
qed

text \<open>The definitions needed to evaluate a run on concrete events.\<close>

lemmas eval_defs =
  bootstrap_def fetchMemory_def fetchMemory_try_def setupRealtimeSubscription_def
  setupPresenceChannel_def SUPABASE_URL_def SUPABASE_ANON_KEY_def js_or_def placeholder_url_def
  placeholder_key_def lit_def init_def onInsert_def onDelete_def Let_def
  processHarmonicResponse_def insert_try_def trim_def is_whitespace_def make_entry_def
  bootstrap_jsx_def bootstrap_then_def processHarmonicResponse_jsx_def memoryEntry_def

text \<open>
  C1 as stated fails: a connected component that is delivered the INSERT notification of
  the stored entry 7 twice shows that entry twice.
\<close>

theorem duplicate_delivery_counterexample:
  "map_sum id memoryDisplay
     (run configured_env
        [Mount (Resolves \<lparr>data = Some [], error = None\<rparr>) None None,
         FeedInsert (stored_entry 7 7), FeedInsert (stored_entry 7 7)] init)
   = Inr [stored_entry 7 7, stored_entry 7 7]"
  by (simp add: eval_defs)

text \<open>
  C2 as stated fails: in the realtime component a submit whose insert fails leaves the
  connection state \<open>connected\<close>; in the fetch component a submit whose POST succeeds
  puts the entry into the view at once.
\<close>

theorem failed_append_counterexample:
  "map_sum id apiStatus
     (run configured_env
        [Mount (Resolves \<lparr>data = Some [], error = None\<rparr>) None None,
         SetInputIntent (lit ''Hello''),
         Click 5 5 (Rejects (lit ''Failed to fetch''))] init)
   = Inr Connected
   \<and> map_sum id memoryDisplay
     (run configured_env
        [Mount (Resolves \<lparr>data = Some [], error = None\<rparr>) None None,
         SetInputIntent (lit ''Hello''),
         Click 5 5 (Rejects (lit ''Failed to fetch''))] init)
   = Inr [make_entry (lit ''Hello'') (lit ''Neutral'') 5 5]
   \<and> map_sum id memoryDisplay
     (run_jsx configured_env
        [Mount_jsx (Resolves \<lparr>res_ok = True, res_json = Resolves (Json_array [])\<rparr>),
         SetInputIntent_jsx (lit ''Hello''),
         Click_jsx 5 (Resolves \<lparr>res_ok = True, res_json = Resolves Json_other\<rparr>)] init)
   = Inr [memoryEntry (lit ''Hello'') (lit ''Neutral'') 5]"
  by (simp add: eval_defs)

text \<open>
  C3 as stated fails: a view seeded with a row of timestamp 20 and then delivered the
  INSERT notification of a later row whose timestamp, set by the submitting browser, is
  10 shows the older entry first.
\<close>

theorem echo_out_of_order_counterexample:
  "map_sum id memoryDisplay
     (run configured_env
        [Mount (Resolves \<lparr>data = Some [stored_entry 2 20], error = None\<rparr>) None None,
         FeedInsert (stored_entry 3 10)] init)
   = Inr [stored_entry 3 10, stored_entry 2 20]
   \<and> \<not> most_recent_first [stored_entry 3 10, stored_entry 2 20]"
  by (simp add: eval_defs most_recent_first_def)

lemma returns_Inr: "returns (Inr s) P = P s"
  by (simp add: returns_def)

lemma returns_iff: "returns r P \<longleftrightarrow> (\<exists>s. r = Inr s \<and> P s)"
  by (cases r) (simp_all add: returns_def)

lemma returns_mono: "returns r P \<Longrightarrow> (\<And>s. P s \<Longrightarrow> Q s) \<Longrightarrow> returns r Q"
  by (cases r) (simp_all add: returns_def)

lemma jsx_append_eq:
  assumes "\<not> intent_blank (inputIntent s)"
  shows "processHarmonicResponse_jsx nd outcome s =
           Inr (s\<lparr>outputResponse := result (inputIntent s) (fieldTone s),
                  coherenceScore := score (inputIntent s) (fieldTone s),
                  net := (if apiStatus s = Connected
                          then net s @ [Net_fetch_post (memoryEntry (inputIntent s) (fieldTone s) nd)]
                          else net s),
                  memoryDisplay := take 5 (memoryEntry (inputIntent s) (fieldTone s) nd
                                             # memoryDisplay s)\<rparr>)"
  using assms
  by (cases outcome)
     (simp_all add: processHarmonicResponse_jsx_def intent_blank_def trim_empty_iff Let_def)

text \<open>
  C2 (amended): a submit with a non-blank intent in the state \<open>connected\<close> sends the
  entry to the store and leaves the state \<open>connected\<close>, whatever the store answers. In
  the realtime component the view is unchanged when the insert succeeds (the INSERT
  notification will bring the entry) and gets the entry at its head when the insert fails.
  In the fetch component the entry is put at the head of the view in both cases.
\<close>

theorem submit_while_connected:
  assumes "apiStatus s = Connected" and "\<not> intent_blank (inputIntent s)"
  shows "returns (processHarmonicResponse nd dn outcome s)
           (\<lambda>s'. apiStatus s' = Connected
               \<and> net s' = net s @ [Net_insert (make_entry (inputIntent s) (fieldTone s) nd dn)]
               \<and> memoryDisplay s' =
                   (if call_failed outcome
                    then make_entry (inputIntent s) (fieldTone s) nd dn # take 4 (memoryDisplay s)
                    else memoryDisplay s))
       \<and> returns (processHarmonicResponse_jsx nd outcome_jsx s)
           (\<lambda>s'. apiStatus s' = Connected
               \<and> net s' = net s @ [Net_fetch_post (memoryEntry (inputIntent s) (fieldTone s) nd)]
               \<and> memoryDisplay s' =
                   take 5 (memoryEntry (inputIntent s) (fieldTone s) nd # memoryDisplay s))"
proof (cases "call_failed outcome")
  case True
  show ?thesis
    by (simp add: connected_append_failed [OF assms(2) assms(1) True] jsx_append_eq [OF assms(2)]
          True assms(1) returns_Inr)
next
  case False
  show ?thesis
    by (simp add: connected_append_ok [OF assms(2) assms(1) False] jsx_append_eq [OF assms(2)]
          False assms(1) returns_Inr)
qed

lemma hello_not_blank: "\<not> intent_blank (lit ''Hello'')"
  by (simp add: intent_blank_def lit_def is_whitespace_def)

theorem submit_while_connected_witness:
  "apiStatus (hello_trust\<lparr>apiStatus := Connected\<rparr>) = Connected
   \<and> \<not> intent_blank (inputIntent (hello_trust\<lparr>apiStatus := Connected\<rparr>))
   \<and> returns (processHarmonicResponse 5 5 (Resolves \<lparr>data = None, error = None\<rparr>)
               (hello_trust\<lparr>apiStatus := Connected\<rparr>))
        (\<lambda>s'. apiStatus s' = Connected \<and> memoryDisplay s' = [])
   \<and> returns (processHarmonicResponse 5 5 (Rejects (lit ''Failed to fetch''))
               (hello_trust\<lparr>apiStatus := Connected\<rparr>))
        (\<lambda>s'. apiStatus s' = Connected
            \<and> memoryDisplay s' = [make_entry (lit ''Hello'') (lit ''Trust'') 5 5])"
proof -
  let ?s = "hello_trust\<lparr>apiStatus := Connected\<rparr>"
  have h1: "apiStatus ?s = Connected" by simp
  have v: "inputIntent ?s = lit ''Hello''" "fieldTone ?s = lit ''Trust''" "memoryDisplay ?s = []"
    by (simp_all add: init_def)
  have h2: "\<not> intent_blank (inputIntent ?s)"
    by (simp only: v hello_not_blank not_False_eq_True)
  have f1: "\<not> call_failed (Resolves \<lparr>data = None, error = None\<rparr>)"
    and f2: "call_failed (Rejects (lit ''Failed to fetch''))"
    by (simp_all add: call_failed_def)
  have a: "returns (processHarmonicResponse 5 5 (Resolves \<lparr>data = None, error = None\<rparr>) ?s)
             (\<lambda>s'. apiStatus s' = Connected \<and> memoryDisplay s' = [])"
    by (rule returns_mono
          [OF submit_while_connected [OF h1 h2, of 5 5 "Resolves \<lparr>data = None, error = None\<rparr>",
                THEN conjunct1]])
       (simp only: f1 if_False v simp_thms)
  have b: "returns (processHarmonicResponse 5 5 (Rejects (lit ''Failed to fetch'')) ?s)
             (\<lambda>s'. apiStatus s' = Connected
                 \<and> memoryDisplay s' = [make_entry (lit ''Hello'') (lit ''Trust'') 5 5])"
    by (rule returns_mono
          [OF submit_while_connected [OF h1 h2, of 5 5 "Rejects (lit ''Failed to fetch'')",
                THEN conjunct1]])
       (simp only: f2 if_True v take.simps simp_thms)
  from h1 h2 a b show ?thesis by (intro conjI)
qed

lemma run_view_bound:
  assumes "list_all seed_within_limit evs"
  shows "returns (run env evs init) (\<lambda>s. length (memoryDisplay s) \<le> 5)"
proof (rule run_returns)
  fix ev s s'
  assume "ev \<in> set evs" and b: "length (memoryDisplay s) \<le> 5" and st: "step env ev s = Inr s'"
  with assms have "seed_within_limit ev" by (simp add: list_all_iff)
  from step_view_bound [OF this b st] show "length (memoryDisplay s') \<le> 5" .
next
  show "length (memoryDisplay init) \<le> 5" by (simp add: init_def)
qed

lemma run_jsx_view_bound:
  "returns (run_jsx env evs init) (\<lambda>s. length (memoryDisplay s) \<le> 5)"
proof (rule run_jsx_returns)
  fix ev s s'
  assume "length (memoryDisplay s) \<le> 5" and "step_jsx env ev s = Inr s'"
  then show "length (memoryDisplay s') \<le> 5" by (rule step_jsx_view_bound)
next
  show "length (memoryDisplay init) \<le> 5" by (simp add: init_def)
qed

text \<open>
  C3 (amended): in every state reached from the initial one the view has at most five
  entries (in the realtime component: as long as the store answers the limit-5 query with
  at most five rows). An INSERT notification and a local append put the new entry first,
  before the first four entries of the previous view (in the fetch component: the first
  five of the new entry followed by the previous view). The view stays most-recent-first
  under an INSERT notification when it was so before and no entry in it is more recent
  than the one delivered.
\<close>

theorem view_bounded_newest_placed_first:
  assumes "list_all seed_within_limit evs"
  shows "returns (run env evs init) (\<lambda>s. length (memoryDisplay s) \<le> 5)
       \<and> returns (run_jsx env evs_jsx init) (\<lambda>s. length (memoryDisplay s) \<le> 5)
       \<and> memoryDisplay (onInsert e s) = e # take 4 (memoryDisplay s)
       \<and> (most_recent_first (memoryDisplay s)
            \<and> list_all (\<lambda>e'. e_timestamp e' \<le> e_timestamp e) (memoryDisplay s)
          \<longrightarrow> most_recent_first (memoryDisplay (onInsert e s)))
       \<and> (\<not> intent_blank (inputIntent s) \<and> (apiStatus s \<noteq> Connected \<or> call_failed outcome)
          \<longrightarrow> returns (processHarmonicResponse nd dn outcome s)
                (\<lambda>s'. memoryDisplay s' =
                         make_entry (inputIntent s) (fieldTone s) nd dn # take 4 (memoryDisplay s)))
       \<and> (\<not> intent_blank (inputIntent s)
          \<longrightarrow> returns (processHarmonicResponse_jsx nd outcome_jsx s)
                (\<lambda>s'. memoryDisplay s' =
                         take 5 (memoryEntry (inputIntent s) (fieldTone s) nd # memoryDisplay s)))"
proof -
  have ins: "memoryDisplay (onInsert e s) = e # take 4 (memoryDisplay s)"
    by (simp add: onInsert_def)
  have ord: "most_recent_first (memoryDisplay s)
            \<and> list_all (\<lambda>e'. e_timestamp e' \<le> e_timestamp e) (memoryDisplay s)
          \<longrightarrow> most_recent_first (memoryDisplay (onInsert e s))"
    using onInsert_keeps_order by blast
  have loc: "\<not> intent_blank (inputIntent s) \<and> (apiStatus s \<noteq> Connected \<or> call_failed outcome)
          \<longrightarrow> returns (processHarmonicResponse nd dn outcome s)
                (\<lambda>s'. memoryDisplay s' =
                         make_entry (inputIntent s) (fieldTone s) nd dn # take 4 (memoryDisplay s))"
  proof (intro impI, elim conjE)
    assume nb: "\<not> intent_blank (inputIntent s)"
      and d: "apiStatus s \<noteq> Connected \<or> call_failed outcome"
    show "returns (processHarmonicResponse nd dn outcome s)
                (\<lambda>s'. memoryDisplay s' =
                         make_entry (inputIntent s) (fieldTone s) nd dn # take 4 (memoryDisplay s))"
    proof (cases "apiStatus s = Connected")
      case True
      with d have "call_failed outcome" by simp
      from connected_append_failed [OF nb True this] show ?thesis
        by (simp add: returns_Inr)
    next
      case False
      from local_append [OF nb False] show ?thesis
        by (simp add: returns_Inr)
    qed
  qed
  have jsx: "\<not> intent_blank (inputIntent s)
          \<longrightarrow> returns (processHarmonicResponse_jsx nd outcome_jsx s)
                (\<lambda>s'. memoryDisplay s' =
                         take 5 (memoryEntry (inputIntent s) (fieldTone s) nd # memoryDisplay s))"
    by (simp add: jsx_append_eq returns_Inr)
  from run_view_bound [OF assms] run_jsx_view_bound ins ord loc jsx
  show ?thesis by (intro conjI)
qed

theorem view_bounded_newest_placed_first_witness:
  "list_all seed_within_limit
      [Mount (Resolves \<lparr>data = Some [stored_entry 2 20], error = None\<rparr>) None None,
       FeedInsert (stored_entry 3 30)]
   \<and> returns (run configured_env
        [Mount (Resolves \<lparr>data = Some [stored_entry 2 20], error = None\<rparr>) None None,
         FeedInsert (stored_entry 3 30)] init) (\<lambda>s. length (memoryDisplay s) \<le> 5)
   \<and> returns (run_jsx configured_env
        [Mount_jsx (Resolves \<lparr>res_ok = True, res_json = Resolves (Json_array [])\<rparr>)] init)
        (\<lambda>s. length (memoryDisplay s) \<le> 5)
   \<and> memoryDisplay (onInsert (stored_entry 3 30) (hello_trust\<lparr>memoryDisplay := [stored_entry 2 20]\<rparr>))
       = [stored_entry 3 30, stored_entry 2 20]
   \<and> most_recent_first
        (memoryDisplay (onInsert (stored_entry 3 30) (hello_trust\<lparr>memoryDisplay := [stored_entry 2 20]\<rparr>)))
   \<and> returns (processHarmonicResponse 40 40 (Rejects (lit ''Failed to fetch''))
                (hello_trust\<lparr>memoryDisplay := [stored_entry 2 20]\<rparr>))
        (\<lambda>s'. memoryDisplay s' = [make_entry (lit ''Hello'') (lit ''Trust'') 40 40, stored_entry 2 20])
   \<and> returns (processHarmonicResponse_jsx 40 (Rejects (lit ''Failed to fetch''))
                (hello_trust\<lparr>memoryDisplay := [stored_entry 2 20]\<rparr>))
        (\<lambda>s'. memoryDisplay s' = [memoryEntry (lit ''Hello'') (lit ''Trust'') 40, stored_entry 2 20])"
proof -
  let ?evs = "[Mount (Resolves \<lparr>data = Some [stored_entry 2 20], error = None\<rparr>) None None,
               FeedInsert (stored_entry 3 30)]"
  let ?s = "hello_trust\<lparr>memoryDisplay := [stored_entry 2 20]\<rparr>"
  have h: "list_all seed_within_limit ?evs"
    by (simp add: answer_within_limit_def)
  note t = view_bounded_newest_placed_first [OF h, of configured_env
      "[Mount_jsx (Resolves \<lparr>res_ok = True, res_json = Resolves (Json_array [])\<rparr>)]"
      "stored_entry 3 30" ?s "Rejects (lit ''Failed to fetch'')" 40 40
      "Rejects (lit ''Failed to fetch'')"]
  have v: "inputIntent ?s = lit ''Hello''" "fieldTone ?s = lit ''Trust''"
      "memoryDisplay ?s = [stored_entry 2 20]" "apiStatus ?s \<noteq> Connected"
    by (simp_all add: init_def)
  have o: "most_recent_first (memoryDisplay ?s)
         \<and> list_all (\<lambda>e'. e_timestamp e' \<le> e_timestamp (stored_entry 3 30)) (memoryDisplay ?s)"
    by (simp add: most_recent_first_def)
  have nb: "\<not> intent_blank (inputIntent ?s)"
    by (simp only: v hello_not_blank not_False_eq_True)
  have c3: "memoryDisplay (onInsert (stored_entry 3 30) ?s) = [stored_entry 3 30, stored_entry 2 20]"
    using t [THEN conjunct2, THEN conjunct2, THEN conjunct1] by simp
  have c4: "most_recent_first (memoryDisplay (onInsert (stored_entry 3 30) ?s))"
    using t [THEN conjunct2, THEN conjunct2, THEN conjunct2, THEN conjunct1] o by blast
  have "returns (processHarmonicResponse 40 40 (Rejects (lit ''Failed to fetch'')) ?s)
          (\<lambda>s'. memoryDisplay s' =
                   make_entry (inputIntent ?s) (fieldTone ?s) 40 40 # take 4 (memoryDisplay ?s))"
    using t [THEN conjunct2, THEN conjunct2, THEN conjunct2, THEN conjunct2, THEN conjunct1]
      nb v(4)
    by blast
  then have c5: "returns (processHarmonicResponse 40 40 (Rejects (lit ''Failed to fetch'')) ?s)
          (\<lambda>s'. memoryDisplay s' = [make_entry (lit ''Hello'') (lit ''Trust'') 40 40, stored_entry 2 20])"
    by (simp only: v take.simps list.case nat.case) simp
  have "returns (processHarmonicResponse_jsx 40 (Rejects (lit ''Failed to fetch'')) ?s)
          (\<lambda>s'. memoryDisplay s' =
                   take 5 (memoryEntry (inputIntent ?s) (fieldTone ?s) 40 # memoryDisplay ?s))"
    using t [THEN conjunct2, THEN conjunct2, THEN conjunct2, THEN conjunct2, THEN conjunct2]
      nb
    by blast
  then have c6: "returns (processHarmonicResponse_jsx 40 (Rejects (lit ''Failed to fetch'')) ?s)
          (\<lambda>s'. memoryDisplay s' = [memoryEntry (lit ''Hello'') (lit ''Trust'') 40, stored_entry 2 20])"
    by (simp only: v) simp
  from h t [THEN conjunct1] t [THEN conjunct2, THEN conjunct1] c3 c4 c5 c6
  show ?thesis by (intro conjI)
qed

subsection \<open>The store being down\<close>

lemma bootstrap_failed_status:
  assumes "call_failed outcome" "bootstrap env outcome tf tp s = Inr s'"
  shows "apiStatus s' = Not_configured \<or> apiStatus s' = Error_status"
  using assms(2)
  by (cases tf; cases tp)
     (auto simp: bootstrap_def fetchMemory_failed [OF assms(1)] setupRealtimeSubscription_def
        setupPresenceChannel_def Let_def split: if_splits)

lemma click_status: "processHarmonicResponse nd dn outcome s = Inr s' \<Longrightarrow> apiStatus s' = apiStatus s"
  by (auto simp: processHarmonicResponse_def insert_try_def Let_def
           split: if_splits awaited.splits option.splits)

lemma step_unavailable_degraded:
  assumes "unavailable ev" "apiStatus s = Not_configured \<or> apiStatus s = Error_status"
    "step env ev s = Inr s'"
  shows "apiStatus s' = Not_configured \<or> apiStatus s' = Error_status"
proof (cases ev)
  case (Mount outcome tf tp)
  with assms show ?thesis using bootstrap_failed_status [of outcome env tf tp s s'] by simp
next
  case (Click nd dn outcome)
  with assms show ?thesis using click_status [of nd dn outcome s s'] by simp
next
  case (FeedDelete outcome)
  with assms show ?thesis
    by (auto simp: onDelete_def fetchMemory_failed split: if_splits)
next
  case (FeedInsert e)
  with assms show ?thesis by (auto simp: onInsert_def split: if_splits)
next
  case Timeout
  with assms show ?thesis by (auto simp: onTimeout_def split: list.splits)
qed (use assms in auto)

lemma step_unavailable_not_connected:
  assumes "unavailable ev" "apiStatus s \<noteq> Connected" "step env ev s = Inr s'"
  shows "apiStatus s' \<noteq> Connected"
proof (cases ev)
  case (Mount outcome tf tp)
  with assms show ?thesis using bootstrap_failed_status [of outcome env tf tp s s'] by auto
next
  case (Click nd dn outcome)
  with assms show ?thesis using click_status [of nd dn outcome s s'] by simp
next
  case (FeedDelete outcome)
  with assms show ?thesis
    by (auto simp: onDelete_def fetchMemory_failed split: if_splits)
next
  case (FeedInsert e)
  with assms show ?thesis by (auto simp: onInsert_def split: if_splits)
next
  case Timeout
  with assms show ?thesis by (auto simp: onTimeout_def split: list.splits)
qed (use assms in auto)

lemma local_append_returns:
  assumes "apiStatus s \<noteq> Connected"
  shows "\<not> intent_blank (inputIntent s) \<longrightarrow>
         returns (processHarmonicResponse nd dn outcome s)
           (\<lambda>s'. memoryDisplay s' =
                    make_entry (inputIntent s) (fieldTone s) nd dn # take 4 (memoryDisplay s)
                \<and> apiStatus s' = apiStatus s \<and> net s' = net s)"
  by (simp add: local_append [OF _ assms] returns_Inr)

text \<open>
  C6 as stated fails: an intent of one space is not empty, yet with the store down the
  submit leaves the view empty, because the guard tests the trimmed intent.
\<close>

theorem whitespace_intent_counterexample:
  "map_sum id inputIntent
     (run configured_env
        [Mount (Rejects (lit ''Failed to fetch'')) None None,
         SetInputIntent [0x20],
         Click 5 5 (Rejects (lit ''Failed to fetch''))] init)
   = Inr [0x20]
   \<and> map_sum id memoryDisplay
     (run configured_env
        [Mount (Rejects (lit ''Failed to fetch'')) None None,
         SetInputIntent [0x20],
         Click 5 5 (Rejects (lit ''Failed to fetch''))] init)
   = Inr []
   \<and> map_sum id apiStatus
     (run configured_env
        [Mount (Rejects (lit ''Failed to fetch'')) None None,
         SetInputIntent [0x20],
         Click 5 5 (Rejects (lit ''Failed to fetch''))] init)
   = Inr Error_status"
  by (simp add: eval_defs)

text \<open>
  C6 (amended): when every call to the store fails, no run of the realtime component ends
  with an uncaught error and none reaches the state \<open>connected\<close>; once mounted the state
  is \<open>not-configured\<close> or \<open>error\<close>, and from every state so reached a submit whose
  intent is not blank (not empty once trimmed) returns with the entry at the head of the
  view, the connection state and the log of requests unchanged.
\<close>

theorem store_down_local_fallback:
  assumes "list_all unavailable evs" and "call_failed outcome"
  shows "returns (run env evs init) (\<lambda>s. apiStatus s \<noteq> Connected)
       \<and> returns (run env (Mount outcome tf tp # evs) init)
           (\<lambda>s. (apiStatus s = Not_configured \<or> apiStatus s = Error_status)
              \<and> (\<not> intent_blank (inputIntent s) \<longrightarrow>
                  returns (processHarmonicResponse nd dn outcome_c s)
                    (\<lambda>s'. memoryDisplay s' =
                             make_entry (inputIntent s) (fieldTone s) nd dn
                               # take 4 (memoryDisplay s)
                         \<and> apiStatus s' = apiStatus s \<and> net s' = net s)))"
proof -
  have a: "returns (run env evs init) (\<lambda>s. apiStatus s \<noteq> Connected)"
  proof (rule run_returns)
    fix ev s s'
    assume "ev \<in> set evs" and n: "apiStatus s \<noteq> Connected" and st: "step env ev s = Inr s'"
    with assms(1) have "unavailable ev" by (simp add: list_all_iff)
    from step_unavailable_not_connected [OF this n st] show "apiStatus s' \<noteq> Connected" .
  next
    show "apiStatus init \<noteq> Connected" by (simp add: init_def)
  qed
  obtain s1 where s1: "bootstrap env outcome tf tp init = Inr s1"
    using bootstrap_total by blast
  have d1: "apiStatus s1 = Not_configured \<or> apiStatus s1 = Error_status"
    using bootstrap_failed_status [OF assms(2) s1] .
  have "returns (run env evs s1) (\<lambda>s. apiStatus s = Not_configured \<or> apiStatus s = Error_status)"
  proof (rule run_returns)
    fix ev s s'
    assume "ev \<in> set evs" and d: "apiStatus s = Not_configured \<or> apiStatus s = Error_status"
      and st: "step env ev s = Inr s'"
    with assms(1) have "unavailable ev" by (simp add: list_all_iff)
    from step_unavailable_degraded [OF this d st]
    show "apiStatus s' = Not_configured \<or> apiStatus s' = Error_status" .
  next
    show "apiStatus s1 = Not_configured \<or> apiStatus s1 = Error_status" by (rule d1)
  qed
  then have "returns (run env evs s1)
           (\<lambda>s. (apiStatus s = Not_configured \<or> apiStatus s = Error_status)
              \<and> (\<not> intent_blank (inputIntent s) \<longrightarrow>
                  returns (processHarmonicResponse nd dn outcome_c s)
                    (\<lambda>s'. memoryDisplay s' =
                             make_entry (inputIntent s) (fieldTone s) nd dn
                               # take 4 (memoryDisplay s)
                         \<and> apiStatus s' = apiStatus s \<and> net s' = net s)))"
  proof (rule returns_mono)
    fix s :: client
    assume d: "apiStatus s = Not_configured \<or> apiStatus s = Error_status"
    then have "apiStatus s \<noteq> Connected" by auto
    from local_append_returns [OF this, of nd dn outcome_c] d
    show "(apiStatus s = Not_configured \<or> apiStatus s = Error_status)
              \<and> (\<not> intent_blank (inputIntent s) \<longrightarrow>
                  returns (processHarmonicResponse nd dn outcome_c s)
                    (\<lambda>s'. memoryDisplay s' =
                             make_entry (inputIntent s) (fieldTone s) nd dn
                               # take 4 (memoryDisplay s)
                         \<and> apiStatus s' = apiStatus s \<and> net s' = net s))"
      by (intro conjI)
  qed
  moreover have "run env (Mount outcome tf tp # evs) init = run env evs s1"
    by (simp add: s1)
  ultimately show ?thesis using a by simp
qed

subsection \<open>No configuration\<close>









theorem store_down_local_fallback_witness:
  "list_all unavailable
      [SetInputIntent (lit ''Hello''), Click 5 5 (Rejects (lit ''Failed to fetch'')),
       FeedDelete (Resolves \<lparr>data = None, error = Some (lit ''timeout'')\<rparr>)]
   \<and> call_failed (Rejects (lit ''Failed to fetch'') :: entry list sb_response awaited)
   \<and> returns (run configured_env
        (Mount (Rejects (lit ''Failed to fetch'')) None None #
         [SetInputIntent (lit ''Hello''), Click 5 5 (Rejects (lit ''Failed to fetch'')),
          FeedDelete (Resolves \<lparr>data = None, error = Some (lit ''timeout'')\<rparr>)]) init)
        (\<lambda>s. (apiStatus s = Not_configured \<or> apiStatus s = Error_status)
           \<and> returns (processHarmonicResponse 6 6 (Rejects (lit ''Failed to fetch'')) s)
                (\<lambda>s'. memoryDisplay s' =
                         make_entry (inputIntent s) (fieldTone s) 6 6 # take 4 (memoryDisplay s)
                     \<and> apiStatus s' = apiStatus s \<and> net s' = net s))
   \<and> map_sum id apiStatus (run configured_env
        (Mount (Rejects (lit ''Failed to fetch'')) None None #
         [SetInputIntent (lit ''Hello''), Click 5 5 (Rejects (lit ''Failed to fetch'')),
          FeedDelete (Resolves \<lparr>data = None, error = Some (lit ''timeout'')\<rparr>)]) init)
       = Inr Error_status"
proof -
  let ?evs = "[SetInputIntent (lit ''Hello''), Click 5 5 (Rejects (lit ''Failed to fetch'')),
               FeedDelete (Resolves \<lparr>data = None, error = Some (lit ''timeout'')\<rparr>)]"
  let ?down = "Rejects (lit ''Failed to fetch'') :: entry list sb_response awaited"
  have h1: "list_all unavailable ?evs" by (simp add: call_failed_def)
  have h2: "call_failed ?down" by (simp add: call_failed_def)
  have r: "run configured_env (Mount ?down None None # ?evs) init
             = Inr (init\<lparr>inputIntent := lit ''Hello'',
                         outputResponse := result (lit ''Hello'') (lit ''Neutral''),
                         coherenceScore := score (lit ''Hello'') (lit ''Neutral''),
                         memoryDisplay := [make_entry (lit ''Hello'') (lit ''Neutral'') 5 5],
                         apiStatus := Error_status, subscribed := True,
                         net := [Net_select 5, Net_subscribe_feed, Net_subscribe_presence,
                                 Net_select 5]\<rparr>)"
    by (simp add: bootstrap_def fetchMemory_failed h2 call_failed_def
          setupRealtimeSubscription_def setupPresenceChannel_def SUPABASE_URL_def
          SUPABASE_ANON_KEY_def js_or_def placeholder_url_def placeholder_key_def lit_def
          init_def onDelete_def Let_def processHarmonicResponse_def trim_def is_whitespace_def)
  have nb: "\<not> intent_blank (inputIntent (init\<lparr>inputIntent := lit ''Hello'',
                         outputResponse := result (lit ''Hello'') (lit ''Neutral''),
                         coherenceScore := score (lit ''Hello'') (lit ''Neutral''),
                         memoryDisplay := [make_entry (lit ''Hello'') (lit ''Neutral'') 5 5],
                         apiStatus := Error_status, subscribed := True,
                         net := [Net_select 5, Net_subscribe_feed, Net_subscribe_presence,
                                 Net_select 5]\<rparr>))"
    by (simp add: hello_not_blank)
  have "returns (run configured_env (Mount ?down None None # ?evs) init)
        (\<lambda>s. (apiStatus s = Not_configured \<or> apiStatus s = Error_status)
           \<and> returns (processHarmonicResponse 6 6 (Rejects (lit ''Failed to fetch'')) s)
                (\<lambda>s'. memoryDisplay s' =
                         make_entry (inputIntent s) (fieldTone s) 6 6 # take 4 (memoryDisplay s)
                     \<and> apiStatus s' = apiStatus s \<and> net s' = net s))"
    using store_down_local_fallback [OF h1 h2, of configured_env None None 6 6
            "Rejects (lit ''Failed to fetch'')", THEN conjunct2] nb
    by (simp only: r returns_Inr simp_thms)
  moreover have "map_sum id apiStatus (run configured_env (Mount ?down None None # ?evs) init)
                   = Inr Error_status"
    by (simp only: r) simp
  ultimately show ?thesis using h1 h2 by (intro conjI)
qed


end
